theory Spec2Isabelle
  imports Main "HOL-Library.Word"
begin

unbundle bit_operations_syntax

section \<open>Token kinds of the Quake map tokenizer\<close>

text \<open>
  \<^verbatim>\<open>namespace QuakeMapToken\<close> of \<^verbatim>\<open>IO/StandardMapParser.h\<close>: \<^verbatim>\<open>Type\<close> is
  \<^verbatim>\<open>unsigned int\<close>, every kind is \<^verbatim>\<open>1 << n\<close>, and \<^verbatim>\<open>Number\<close> is the union of the
  two numeric kinds.
\<close>

type_synonym Type = "32 word"

definition Integer :: Type where "Integer = push_bit 0 1"
definition Decimal :: Type where "Decimal = push_bit 1 1"
definition String :: Type where "String = push_bit 2 1"
definition OParenthesis :: Type where "OParenthesis = push_bit 3 1"
definition CParenthesis :: Type where "CParenthesis = push_bit 4 1"
definition OBrace :: Type where "OBrace = push_bit 5 1"
definition CBrace :: Type where "CBrace = push_bit 6 1"
definition OBracket :: Type where "OBracket = push_bit 7 1"
definition CBracket :: Type where "CBracket = push_bit 8 1"
definition Comment :: Type where "Comment = push_bit 9 1"
definition Eof :: Type where "Eof = push_bit 10 1"
definition Eol :: Type where "Eol = push_bit 11 1"
definition Number :: Type where "Number = Integer OR Decimal"

text \<open>The twelve kinds, in the order of their declaration.\<close>

definition kinds :: "Type list" where
  "kinds = [Integer, Decimal, String, OParenthesis, CParenthesis, OBrace, CBrace,
            OBracket, CBracket, Comment, Eof, Eol]"

text \<open>A mask built as the union (bitwise or) of a list of kinds.\<close>

fun unionOf :: "Type list \<Rightarrow> Type" where
  "unionOf [] = 0"
| "unionOf (k # ks) = k OR unionOf ks"

text \<open>The test every grammar rule makes: \<^verbatim>\<open>(k & m) != 0\<close>.\<close>

definition hasType :: "Type \<Rightarrow> Type \<Rightarrow> bool" where
  "hasType k typeMask = (k AND typeMask \<noteq> 0)"


section \<open>Tokens and the tokenizer cursor\<close>

text \<open>
  Modelled from the spec: \<^verbatim>\<open>IO/Tokenizer.h\<close> (the token class and the tokenizer) is not
  among the sources. A token carries its kind, its text and its position; the tokenizer
  is a cursor over the tokens still to be delivered, and \<^verbatim>\<open>nextToken()\<close> "returns the
  next Token or an end-of-file token". The position of the end-of-file token plays no
  part in what follows.
\<close>

record Token =
  kind :: Type
  content :: string
  line :: nat
  column :: nat

definition eofToken :: Token where
  "eofToken = \<lparr>kind = Eof, content = [], line = 0, column = 0\<rparr>"

type_synonym Tokenizer = "Token list"

fun nextToken :: "Tokenizer \<Rightarrow> Token \<times> Tokenizer" where
  "nextToken [] = (eofToken, [])"
| "nextToken (t # ts) = (t, ts)"

text \<open>
  The token that \<^verbatim>\<open>nextToken()\<close> returns once \<open>j\<close> tokens have been consumed: the
  \<open>j\<close>-th of the upcoming tokens, counted from 0.
\<close>

definition lookahead :: "Tokenizer \<Rightarrow> nat \<Rightarrow> Token" where
  "lookahead tk j = fst (nextToken (drop j tk))"

section \<open>Exceptions and \<^verbatim>\<open>expect\<close>\<close>

text \<open>
  Modelled from the spec: \<^verbatim>\<open>IO/Parser.h\<close>, which declares \<^verbatim>\<open>expect\<close>, is not among the
  sources. "A grammar rule expected one token kind and found another": the rule names
  the acceptable kinds in a mask, the token passes when its kind is in the mask and is
  returned; otherwise the exception is raised. It carries the mask and the token found.
  The other construct-local error met here is that of a parser that rejects a repeated
  property key; it carries the key. A fatal \<^verbatim>\<open>TokenizerError\<close> arises while the text is
  cut into tokens, before the cursor modelled here.
\<close>

datatype ParserException =
    UnexpectedTokenError Type Token
  | DuplicateKeyError string

definition expect :: "Type \<Rightarrow> Token \<Rightarrow> ParserException + Token" where
  "expect typeMask token =
     (if hasType (kind token) typeMask then Inr token
      else Inl (UnexpectedTokenError typeMask token))"

section \<open>\<^verbatim>\<open>StandardMapParser::parseFloatVector\<close>\<close>

text \<open>
  The member template of \<^verbatim>\<open>IO/StandardMapParser.h\<close>. The only state it touches is
  \<^verbatim>\<open>m_tokenizer\<close>, which is passed in and returned, also when an exception leaves the
  function: the pair's first component is the exception or the vector, the second the
  tokenizer as the call leaves it. Each \<^verbatim>\<open>m_tokenizer.nextToken()\<close> is evaluated before
  the \<^verbatim>\<open>expect\<close> it is an argument of. \<^verbatim>\<open>Token::toFloat<T>\<close> is not among the sources
  and is a parameter. The vector \<^verbatim>\<open>vm::vec<T, S>\<close> is the list of its \<open>S\<close> components.

  The \<^verbatim>\<open>for\<close> loop, with the number of components still to read as its argument:
\<close>

fun parseComponents ::
  "(Token \<Rightarrow> 'a) \<Rightarrow> nat \<Rightarrow> Tokenizer \<Rightarrow> (ParserException + 'a list) \<times> Tokenizer" where
  "parseComponents toFloat 0 tk = (Inr [], tk)"
| "parseComponents toFloat (Suc n) tk =
     (case nextToken tk of (token, tk1) \<Rightarrow>
        (case expect Number token of
           Inl e \<Rightarrow> (Inl e, tk1)
         | Inr t \<Rightarrow>
             (case parseComponents toFloat n tk1 of
                (Inl e, tk2) \<Rightarrow> (Inl e, tk2)
              | (Inr vec, tk2) \<Rightarrow> (Inr (toFloat t # vec), tk2))))"

definition parseFloatVector ::
  "(Token \<Rightarrow> 'a) \<Rightarrow> nat \<Rightarrow> Type \<Rightarrow> Type \<Rightarrow> Tokenizer
     \<Rightarrow> (ParserException + 'a list) \<times> Tokenizer" where
  "parseFloatVector toFloat S o' c tk =
     (case nextToken tk of (token, tk1) \<Rightarrow>
        (case expect o' token of
           Inl e \<Rightarrow> (Inl e, tk1)
         | Inr _ \<Rightarrow>
             (case parseComponents toFloat S tk1 of
                (Inl e, tk2) \<Rightarrow> (Inl e, tk2)
              | (Inr vec, tk2) \<Rightarrow>
                  (case nextToken tk2 of (token', tk3) \<Rightarrow>
                     (case expect c token' of
                        Inl e \<Rightarrow> (Inl e, tk3)
                      | Inr _ \<Rightarrow> (Inr vec, tk3))))))"

text \<open>
  The kind that the call expects of the \<open>j\<close>-th token it reads: the opening delimiter,
  then \<open>S\<close> numbers, then the closing delimiter.
\<close>

definition expectedAt :: "nat \<Rightarrow> Type \<Rightarrow> Type \<Rightarrow> nat \<Rightarrow> Type" where
  "expectedAt S o' c j = (if j = 0 then o' else if j \<le> S then Number else c)"

text \<open>
  The upcoming \<open>S + 2\<close> tokens are one of kind \<open>o\<close>, then \<open>S\<close> of kind \<open>Integer\<close> or
  \<open>Decimal\<close>, then one of kind \<open>c\<close>.
\<close>

definition vectorAhead :: "nat \<Rightarrow> Type \<Rightarrow> Type \<Rightarrow> Tokenizer \<Rightarrow> bool" where
  "vectorAhead S o' c tk =
     (kind (lookahead tk 0) = o'
      \<and> (\<forall>i \<in> {1 .. S}. kind (lookahead tk i) = Integer \<or> kind (lookahead tk i) = Decimal)
      \<and> kind (lookahead tk (Suc S)) = c)"

fun succeeded :: "('e + 'a) \<times> 's \<Rightarrow> bool" where
  "succeeded (Inr _, _) = True"
| "succeeded (Inl _, _) = False"

section \<open>The status sink, the builder and the parser state\<close>

text \<open>
  Modelled from the spec: \<^verbatim>\<open>peekToken()\<close> of the tokenizer (\<^verbatim>\<open>IO/Tokenizer.h\<close>, not among
  the sources), the one-token lookahead: the token \<^verbatim>\<open>nextToken()\<close> would return, with
  the cursor left where it is.
\<close>

definition peekToken :: "Tokenizer \<Rightarrow> Token" where
  "peekToken tk = fst (nextToken tk)"

text \<open>
  Modelled from the spec: \<^verbatim>\<open>ParserStatus\<close> (\<^verbatim>\<open>IO/ParserStatus.h\<close>, not among the sources),
  the sink with \<^verbatim>\<open>warn\<close> and \<^verbatim>\<open>error\<close>. The sink is the list of what it has been given,
  in order.
\<close>

datatype Diagnostic = StatusWarn string | StatusError ParserException

text \<open>
  Modelled from the spec: the builder callbacks (\<^verbatim>\<open>IO/MapParser.h\<close>, not among the
  sources). The builder receives every completed construct: an entity with its
  properties and source line, or a block (a brush or a patch, of type \<open>'b\<close>). It is the
  list of what it has received, in order.
\<close>

datatype 'b Delivered = EntityComplete "(string \<times> string) list" nat | BlockComplete 'b

text \<open>
  What a parse threads through its calls: the tokenizer it owns, and the sink and the
  builder it was given.
\<close>

record 'b ParserState =
  tokenizer :: Tokenizer
  status :: "Diagnostic list"
  builder :: "'b Delivered list"

section \<open>Recovery from a construct-local error\<close>

text \<open>
  Modelled from the spec: the resynchronization of section 7, which is part of
  \<^verbatim>\<open>IO/StandardMapParser.cpp\<close> (not among the sources): "the parser resynchronizes by
  scanning forward to the next balanced closing delimiter at the same nesting depth,
  then resumes at the enclosing scope". The nesting depth is that of the construct being
  discarded, so it is counted from the construct's own opening brace: \<open>start\<close> is the
  tokenizer as it stood at that brace, and a brace that the failed parser has consumed
  is counted like one it has left unread. Behind the opening brace, an opening brace
  goes one level deeper, a closing brace at a deeper level comes one level back, and
  the closing brace met at the construct's own level ends the scan, the cursor standing
  behind it, in the enclosing scope. The end of the input ends the scan too.
\<close>

fun skipToClose :: "nat \<Rightarrow> Tokenizer \<Rightarrow> Tokenizer" where
  "skipToClose depth [] = []"
| "skipToClose depth (t # ts) =
     (if hasType (kind t) OBrace then skipToClose (Suc depth) ts
      else if hasType (kind t) CBrace then
        (case depth of 0 \<Rightarrow> ts | Suc d \<Rightarrow> skipToClose d ts)
      else skipToClose depth ts)"

definition resynchronize :: "Tokenizer \<Rightarrow> Tokenizer" where
  "resynchronize start = skipToClose 0 (snd (nextToken start))"

text \<open>
  A block parser reads one brush or patch from the tokenizer and returns it, or the
  exception that ended it, with the tokenizer as it leaves it. A block parser with a
  loop in it takes fuel; \<open>None\<close> is a call that has not returned.
\<close>

type_synonym 'b BlockParser =
  "Tokenizer \<Rightarrow> ((ParserException + 'b) \<times> Tokenizer) option"

text \<open>
  Modelled from the spec: the wrapper of section 4.2 around every block parse
  (\<^verbatim>\<open>IO/StandardMapParser.cpp\<close>, not among the sources): "a structural error inside one
  brush/patch/entity is reported and that construct is abandoned, but scanning resumes
  at the next balanced \<^verbatim>\<open>}\<close>". A block that completes is handed to the builder; an
  exception is reported through \<^verbatim>\<open>ParserStatus.error\<close>, nothing is handed over, and the
  tokenizer is resynchronized from the block's opening brace, wherever the block parser
  has left it. The block parser (which of brush, primitive brush or patch it is, and in
  which dialect) is a parameter.
\<close>

definition parseBlock :: "'b BlockParser \<Rightarrow> 'b ParserState \<Rightarrow> 'b ParserState option" where
  "parseBlock body st =
     (case body (tokenizer st) of
        None \<Rightarrow> None
      | Some (Inr b, tk) \<Rightarrow>
          Some (st\<lparr>tokenizer := tk, builder := builder st @ [BlockComplete b]\<rparr>)
      | Some (Inl e, tk) \<Rightarrow>
          Some (st\<lparr>tokenizer := resynchronize (tokenizer st),
                   status := status st @ [StatusError e]\<rparr>))"

section \<open>Entities and their properties\<close>

text \<open>
  \<^verbatim>\<open>EntityPropertyKeys\<close> is \<^verbatim>\<open>kdl::vector_set<std::string>\<close> in the header: a set of
  strings. The properties are a vector of pairs of strings.

  The spec leaves open what a repeated key does ("last-write-wins vs. first-write-wins
  vs. rejection"); the three are the values of a parameter.
\<close>

datatype DuplicateKeyPolicy = FirstWriteWins | LastWriteWins | Rejection

type_synonym EntityProperty = "string \<times> string"
type_synonym EntityPropertyKeys = "string set"

text \<open>The value of key \<open>k\<close> replaced by \<open>v\<close> where the key occurs.\<close>

fun overwrite :: "string \<Rightarrow> string \<Rightarrow> EntityProperty list \<Rightarrow> EntityProperty list" where
  "overwrite k v [] = []"
| "overwrite k v (p # ps) = (if fst p = k then (k, v) # overwrite k v ps else p # overwrite k v ps)"

text \<open>
  Modelled from the spec: the body of \<^verbatim>\<open>parseEntityProperty\<close>, which the header only
  declares (with the property vector and the key set as reference parameters). It
  reads a \<^verbatim>\<open>"key" "value"\<close> pair, "both String-kind tokens", and accumulates it. A key
  that is not in the key set is appended and entered in the set; a key that is in the
  set is handled by the policy.
\<close>

definition parseEntityProperty ::
  "DuplicateKeyPolicy \<Rightarrow> EntityProperty list \<times> EntityPropertyKeys \<Rightarrow> Tokenizer
     \<Rightarrow> (ParserException + EntityProperty list \<times> EntityPropertyKeys) \<times> Tokenizer" where
  "parseEntityProperty policy acc tk =
     (case nextToken tk of (keyToken, tk1) \<Rightarrow>
        (case expect String keyToken of
           Inl e \<Rightarrow> (Inl e, tk1)
         | Inr k \<Rightarrow>
             (case nextToken tk1 of (valueToken, tk2) \<Rightarrow>
                (case expect String valueToken of
                   Inl e \<Rightarrow> (Inl e, tk2)
                 | Inr v \<Rightarrow>
                     (if content k \<in> snd acc then
                        (case policy of
                           FirstWriteWins \<Rightarrow> (Inr acc, tk2)
                         | LastWriteWins \<Rightarrow>
                             (Inr (overwrite (content k) (content v) (fst acc), snd acc), tk2)
                         | Rejection \<Rightarrow> (Inl (DuplicateKeyError (content k)), tk2))
                      else
                        (Inr (fst acc @ [(content k, content v)], insert (content k) (snd acc)),
                         tk2))))))"

text \<open>
  Modelled from the spec: the body of \<^verbatim>\<open>parseEntity\<close>, which the header only declares;
  the Entity state of section 4.2. Inside an entity the next token decides: a string
  starts a property; \<^verbatim>\<open>{\<close> enters a nested block; \<^verbatim>\<open>}\<close> closes the entity, which is
  handed to the builder with the properties accumulated. Any other token, and an
  exception in a property, is a construct-local error of the entity: it is reported,
  the entity is abandoned and the tokenizer is resynchronized from the entity's opening
  brace, where the tokenizer stood at \<open>entityStart\<close>. The loop takes fuel.
\<close>

fun parseEntityItems ::
  "nat \<Rightarrow> DuplicateKeyPolicy \<Rightarrow> 'b BlockParser \<Rightarrow> EntityProperty list \<times> EntityPropertyKeys
     \<Rightarrow> nat \<Rightarrow> Tokenizer \<Rightarrow> 'b ParserState \<Rightarrow> 'b ParserState option" where
  "parseEntityItems 0 policy body acc startLine entityStart st = None"
| "parseEntityItems (Suc fuel) policy body acc startLine entityStart st =
     (let token = peekToken (tokenizer st) in
      if hasType (kind token) String then
        (case parseEntityProperty policy acc (tokenizer st) of
           (Inr acc', tk) \<Rightarrow>
             parseEntityItems fuel policy body acc' startLine entityStart (st\<lparr>tokenizer := tk\<rparr>)
         | (Inl e, tk) \<Rightarrow>
             Some (st\<lparr>tokenizer := resynchronize entityStart,
                      status := status st @ [StatusError e]\<rparr>))
      else if hasType (kind token) OBrace then
        (case parseBlock body st of
           None \<Rightarrow> None
         | Some st' \<Rightarrow> parseEntityItems fuel policy body acc startLine entityStart st')
      else if hasType (kind token) CBrace then
        Some (st\<lparr>tokenizer := snd (nextToken (tokenizer st)),
                 builder := builder st @ [EntityComplete (fst acc) startLine]\<rparr>)
      else
        Some (st\<lparr>tokenizer := resynchronize entityStart,
                 status := status st @
                   [StatusError (UnexpectedTokenError (unionOf [String, OBrace, CBrace]) token)]\<rparr>))"

text \<open>
  Modelled from the spec: the entry of \<^verbatim>\<open>parseEntity\<close>: the opening brace, whose line is
  the entity's source line, then the items, from empty accumulators. A first token
  that is no opening brace is reported and skipped, and the scan goes on to the next
  closing brace.
\<close>

definition parseEntity ::
  "nat \<Rightarrow> DuplicateKeyPolicy \<Rightarrow> 'b BlockParser \<Rightarrow> 'b ParserState \<Rightarrow> 'b ParserState option" where
  "parseEntity fuel policy body st =
     (case nextToken (tokenizer st) of (token, tk) \<Rightarrow>
        (case expect OBrace token of
           Inl e \<Rightarrow>
             Some (st\<lparr>tokenizer := resynchronize (tokenizer st),
                      status := status st @ [StatusError e]\<rparr>)
         | Inr t \<Rightarrow>
             parseEntityItems fuel policy body ([], {}) (line t) (tokenizer st)
               (st\<lparr>tokenizer := tk\<rparr>)))"

text \<open>
  The invariant of the two accumulators: no key occurs twice in the property vector,
  and the key set holds exactly the keys of the vector. Strings are compared character
  by character, so keys that differ in case are different keys.
\<close>

definition propertiesInvariant :: "EntityProperty list \<times> EntityPropertyKeys \<Rightarrow> bool" where
  "propertiesInvariant acc = (distinct (map fst (fst acc)) \<and> set (map fst (fst acc)) = snd acc)"

fun uniqueKeys :: "'b Delivered \<Rightarrow> bool" where
  "uniqueKeys (EntityComplete props _) = distinct (map fst props)"
| "uniqueKeys (BlockComplete _) = True"

section \<open>Brushes\<close>








text \<open>
  The blocks of an entity: a brush is its faces and its starting line, a patch is handed
  over with its starting line.
\<close>

datatype ('f, 'p) MapBlock = BrushComplete "'f list" nat | PatchComplete 'p nat






section \<open>Inputs to run the parser on\<close>

text \<open>Two token streams for \<open>parseFloatVector\<close>: \<^verbatim>\<open>( 0 1.5 2 ) tex\<close> and \<^verbatim>\<open>( 1 ) 2 )\<close>.\<close>

definition tok :: "Type \<Rightarrow> string \<Rightarrow> nat \<Rightarrow> Token" where
  "tok k s col = \<lparr>kind = k, content = s, line = 1, column = col\<rparr>"

definition goodVector :: Tokenizer where
  "goodVector = [tok OParenthesis ''('' 1, tok Integer ''0'' 3, tok Decimal ''1.5'' 5,
                 tok Integer ''2'' 9, tok CParenthesis '')'' 11, tok String ''tex'' 13]"

definition shortVector :: Tokenizer where
  "shortVector = [tok OParenthesis ''('' 1, tok Integer ''1'' 3, tok CParenthesis '')'' 5,
                  tok Integer ''2'' 7, tok CParenthesis '')'' 9]"

text \<open>
  An entity that repeats a key, and has a key that differs from it in case only:
  \<^verbatim>\<open>{ "origin" "0 0 0" "Origin" "1" "origin" "8 8 8" }\<close>; and a block parser for an
  entity without blocks.
\<close>

definition repeatedKey :: Tokenizer where
  "repeatedKey = [tok OBrace ''{'' 1, tok String ''origin'' 3, tok String ''0 0 0'' 12,
                  tok String ''Origin'' 20, tok String ''1'' 29,
                  tok String ''origin'' 33, tok String ''8 8 8'' 42, tok CBrace ''}'' 50]"

definition noBlocks :: "unit BlockParser" where
  "noBlocks tk = None"









section \<open>Kinds are distinct powers of two\<close>

lemmas kind_defs =
  Integer_def Decimal_def String_def OParenthesis_def CParenthesis_def OBrace_def
  CBrace_def OBracket_def CBracket_def Comment_def Eof_def Eol_def


lemma kinds_values:
  "kinds = [1, 2, 4, 8, 16, 32, 64, 128, 256, 512, 1024, 2048]"
  by (simp add: kinds_def kind_defs)

lemma kinds_powers: "kinds = map (\<lambda>n. 2 ^ n) [0 ..< 12]"
  by (simp add: kinds_values upt_rec)

lemma kinds_distinct: "distinct kinds"
  by (simp add: kinds_values)

lemma hasType_unionOf:
  "hasType k (unionOf ks) = (\<exists>k' \<in> set ks. hasType k k')"
proof (induction ks)
  case Nil
  show ?case by (simp add: hasType_def)
next
  case (Cons a ks)
  have "hasType k (a OR unionOf ks) = (hasType k a \<or> hasType k (unionOf ks))"
    by (simp add: hasType_def bit.conj_disj_distrib or_eq_0_iff)
  with Cons show ?case by simp
qed

lemma hasType_kinds:
  assumes "k \<in> set kinds" and "k' \<in> set kinds"
  shows "hasType k k' = (k = k')"
  using assms unfolding kinds_values hasType_def by auto

text \<open>
  C8. Each of the twelve token kinds is a power of two, and the kinds are pairwise
  distinct; hence for a kind \<open>k\<close> and a mask \<open>m\<close> that is the union of kinds \<open>ks\<close>,
  the test \<open>(k AND m) \<noteq> 0\<close> holds exactly when \<open>k\<close> is one of \<open>ks\<close>; and \<open>Number\<close> is
  the union of \<open>Integer\<close> and \<open>Decimal\<close>.
\<close>

theorem token_kinds_bitmask:
  "length kinds = 12 \<and> distinct kinds
   \<and> (\<forall>k \<in> set kinds. \<exists>n < 32. k = 2 ^ n)
   \<and> (\<forall>k \<in> set kinds. \<forall>ks. set ks \<subseteq> set kinds \<longrightarrow>
        (k AND unionOf ks \<noteq> 0) = (k \<in> set ks))
   \<and> Number = unionOf [Integer, Decimal]"
proof -
  have len: "length kinds = 12"
    by (simp add: kinds_def)
  have pow: "\<forall>k \<in> set kinds. \<exists>n < 32. k = 2 ^ n"
  proof
    fix k :: Type
    assume "k \<in> set kinds"
    then obtain n where "n < 12" and "k = 2 ^ n"
      unfolding kinds_powers by auto
    then show "\<exists>n < 32. k = 2 ^ n"
      by (intro exI [of _ n]) simp
  qed
  have test: "\<forall>k \<in> set kinds. \<forall>ks. set ks \<subseteq> set kinds \<longrightarrow>
      (k AND unionOf ks \<noteq> 0) = (k \<in> set ks)"
  proof (intro ballI allI impI)
    fix k :: Type and ks :: "Type list"
    assume k: "k \<in> set kinds" and ks: "set ks \<subseteq> set kinds"
    have "hasType k (unionOf ks) = (\<exists>k' \<in> set ks. hasType k k')"
      by (rule hasType_unionOf)
    also have "\<dots> = (\<exists>k' \<in> set ks. k = k')"
    proof (rule bex_cong [OF refl])
      fix k' assume "k' \<in> set ks"
      with ks have "k' \<in> set kinds" by blast
      with k show "hasType k k' = (k = k')" by (rule hasType_kinds)
    qed
    finally show "(k AND unionOf ks \<noteq> 0) = (k \<in> set ks)"
      by (auto simp: hasType_def)
  qed
  have num: "Number = unionOf [Integer, Decimal]"
    by (simp add: Number_def)
  from len kinds_distinct pow test num show ?thesis
    by blast
qed

theorem token_kinds_bitmask_witness:
  "Decimal \<in> set kinds \<and> set [Integer, Decimal] \<subseteq> set kinds
   \<and> Decimal AND unionOf [Integer, Decimal] \<noteq> 0
   \<and> String \<in> set kinds \<and> String AND unionOf [Integer, Decimal] = 0"
proof -
  have k: "Decimal \<in> set kinds" and s: "String \<in> set kinds"
    and ks: "set [Integer, Decimal] \<subseteq> set kinds"
    by (simp_all add: kinds_def)
  from token_kinds_bitmask k ks
  have "(Decimal AND unionOf [Integer, Decimal] \<noteq> 0) = (Decimal \<in> set [Integer, Decimal])"
    by blast
  moreover from token_kinds_bitmask s ks
  have "(String AND unionOf [Integer, Decimal] \<noteq> 0) = (String \<in> set [Integer, Decimal])"
    by blast
  moreover have "String \<notin> set [Integer, Decimal]"
    by (simp add: kind_defs)
  ultimately show ?thesis using k s ks by simp
qed

section \<open>What \<^verbatim>\<open>parseFloatVector\<close> reads and returns\<close>

lemma hasType_examples:
  "hasType OParenthesis OParenthesis" "hasType CParenthesis CParenthesis"
  "hasType Integer Number" "hasType Decimal Number"
  "\<not> hasType CParenthesis Number" "\<not> hasType String Number"
  by (simp_all add: hasType_def Number_def kind_defs)

lemma all_less_two: "(\<forall>j < (2::nat). P j) = (P 0 \<and> P 1)"
  by (auto simp: less_2_cases_iff)

lemma nextToken_lookahead: "nextToken tk = (lookahead tk 0, drop 1 tk)"
  by (cases tk) (simp_all add: lookahead_def)

lemma lookahead_drop: "lookahead (drop m tk) j = lookahead tk (m + j)"
  by (simp add: lookahead_def add.commute)

lemma parseComponents_ok:
  "(\<forall>i < n. hasType (kind (lookahead tk i)) Number) \<Longrightarrow>
   parseComponents toFloat n tk = (Inr (map (\<lambda>i. toFloat (lookahead tk i)) [0 ..< n]), drop n tk)"
proof (induction n arbitrary: tk)
  case 0
  show ?case by simp
next
  case (Suc n)
  have hd: "hasType (kind (lookahead tk 0)) Number"
    using Suc.prems by simp
  have "\<forall>i < n. hasType (kind (lookahead (drop 1 tk) i)) Number"
    using Suc.prems by (simp add: lookahead_drop)
  from Suc.IH [OF this]
  have tl: "parseComponents toFloat n (drop 1 tk)
      = (Inr (map (\<lambda>i. toFloat (lookahead tk (Suc i))) [0 ..< n]), drop (Suc n) tk)"
    by (simp add: lookahead_drop)
  have "map (\<lambda>i. toFloat (lookahead tk i)) [0 ..< Suc n]
      = toFloat (lookahead tk 0) # map (\<lambda>i. toFloat (lookahead tk (Suc i))) [0 ..< n]"
    by (rule map_upt_Suc)
  with hd tl show ?case
    by (simp add: nextToken_lookahead expect_def del: upt_Suc)
qed

lemma parseComponents_fail:
  "k < n \<Longrightarrow> (\<forall>j < k. hasType (kind (lookahead tk j)) Number) \<Longrightarrow>
   \<not> hasType (kind (lookahead tk k)) Number \<Longrightarrow>
   parseComponents toFloat n tk
     = (Inl (UnexpectedTokenError Number (lookahead tk k)), drop (Suc k) tk)"
proof (induction n arbitrary: tk k)
  case 0
  then show ?case by simp
next
  case (Suc n)
  show ?case
  proof (cases k)
    case 0
    with Suc.prems show ?thesis
      by (simp add: nextToken_lookahead expect_def)
  next
    case (Suc k')
    have hd: "hasType (kind (lookahead tk 0)) Number"
      using Suc.prems \<open>k = Suc k'\<close> by simp
    have "k' < n" using Suc.prems \<open>k = Suc k'\<close> by simp
    moreover have "\<forall>j < k'. hasType (kind (lookahead (drop 1 tk) j)) Number"
      using Suc.prems \<open>k = Suc k'\<close> by (simp add: lookahead_drop)
    moreover have "\<not> hasType (kind (lookahead (drop 1 tk) k')) Number"
      using Suc.prems \<open>k = Suc k'\<close> by (simp add: lookahead_drop)
    ultimately have "parseComponents toFloat n (drop 1 tk)
      = (Inl (UnexpectedTokenError Number (lookahead (drop 1 tk) k')), drop (Suc k') (drop 1 tk))"
      by (rule Suc.IH)
    with hd \<open>k = Suc k'\<close> show ?thesis
      by (simp add: nextToken_lookahead expect_def lookahead_drop)
  qed
qed


lemma parseComponents_succeeded:
  "succeeded (parseComponents toFloat n tk) = (\<forall>i < n. hasType (kind (lookahead tk i)) Number)"
proof (cases "\<forall>i < n. hasType (kind (lookahead tk i)) Number")
  case True
  then show ?thesis by (simp add: parseComponents_ok)
next
  case False
  define k where "k = (LEAST i. i < n \<and> \<not> hasType (kind (lookahead tk i)) Number)"
  from False have ex: "\<exists>i. i < n \<and> \<not> hasType (kind (lookahead tk i)) Number"
    by blast
  then have k: "k < n \<and> \<not> hasType (kind (lookahead tk k)) Number"
    unfolding k_def by (rule LeastI_ex)
  have "\<forall>j < k. hasType (kind (lookahead tk j)) Number"
  proof (intro allI impI)
    fix j assume "j < k"
    then have "\<not> (j < n \<and> \<not> hasType (kind (lookahead tk j)) Number)"
      unfolding k_def by (rule not_less_Least)
    with \<open>j < k\<close> k show "hasType (kind (lookahead tk j)) Number" by simp
  qed
  with k have "parseComponents toFloat n tk
      = (Inl (UnexpectedTokenError Number (lookahead tk k)), drop (Suc k) tk)"
    by (intro parseComponents_fail) simp_all
  with False show ?thesis by simp
qed


lemma parseFloatVector_ok:
  assumes "hasType (kind (lookahead tk 0)) o'"
    and "\<forall>i < S. hasType (kind (lookahead tk (Suc i))) Number"
    and "hasType (kind (lookahead tk (Suc S))) c"
  shows "parseFloatVector toFloat S o' c tk
    = (Inr (map (\<lambda>i. toFloat (lookahead tk (Suc i))) [0 ..< S]), drop (S + 2) tk)"
proof -
  have "\<forall>i < S. hasType (kind (lookahead (drop 1 tk) i)) Number"
    using assms(2) by (simp add: lookahead_drop)
  then have "parseComponents toFloat S (drop 1 tk)
    = (Inr (map (\<lambda>i. toFloat (lookahead tk (Suc i))) [0 ..< S]), drop (Suc S) tk)"
    by (simp add: parseComponents_ok lookahead_drop)
  moreover have "nextToken (drop (Suc S) tk) = (lookahead tk (Suc S), drop (S + 2) tk)"
    by (simp add: nextToken_lookahead lookahead_drop)
  ultimately show ?thesis
    using assms(1,3) by (simp add: parseFloatVector_def nextToken_lookahead expect_def)
qed

lemma parseFloatVector_fail:
  assumes k: "k \<le> Suc S"
    and before: "\<forall>j < k. hasType (kind (lookahead tk j)) (expectedAt S o' c j)"
    and at: "\<not> hasType (kind (lookahead tk k)) (expectedAt S o' c k)"
  shows "parseFloatVector toFloat S o' c tk
    = (Inl (UnexpectedTokenError (expectedAt S o' c k) (lookahead tk k)), drop (Suc k) tk)"
proof -
  consider (first) "k = 0" | (middle) "0 < k" "k \<le> S" | (last) "k = Suc S"
    using k by linarith
  then show ?thesis
  proof cases
    case first
    with at show ?thesis
      by (simp add: parseFloatVector_def nextToken_lookahead expect_def expectedAt_def)
  next
    case middle
    then obtain k' where k': "k = Suc k'" "k' < S"
      by (cases k) simp_all
    have op: "hasType (kind (lookahead tk 0)) o'"
      using before middle by (auto simp: expectedAt_def)
    have "\<forall>j < k'. hasType (kind (lookahead (drop 1 tk) j)) Number"
    proof (intro allI impI)
      fix j assume "j < k'"
      with k' before have "hasType (kind (lookahead tk (Suc j))) (expectedAt S o' c (Suc j))"
        by simp
      with \<open>j < k'\<close> k' show "hasType (kind (lookahead (drop 1 tk) j)) Number"
        by (simp add: expectedAt_def lookahead_drop)
    qed
    moreover have "\<not> hasType (kind (lookahead (drop 1 tk) k')) Number"
      using at k' by (simp add: expectedAt_def lookahead_drop)
    ultimately have "parseComponents toFloat S (drop 1 tk)
      = (Inl (UnexpectedTokenError Number (lookahead (drop 1 tk) k')), drop (Suc k') (drop 1 tk))"
      using k'(2) by (intro parseComponents_fail) simp_all
    with op k' show ?thesis
      by (simp add: parseFloatVector_def nextToken_lookahead expect_def expectedAt_def
          lookahead_drop)
  next
    case last
    have op: "hasType (kind (lookahead tk 0)) o'"
      using before last by (auto simp: expectedAt_def)
    have "\<forall>i < S. hasType (kind (lookahead (drop 1 tk) i)) Number"
    proof (intro allI impI)
      fix i assume "i < S"
      with last before have "hasType (kind (lookahead tk (Suc i))) (expectedAt S o' c (Suc i))"
        by simp
      with \<open>i < S\<close> show "hasType (kind (lookahead (drop 1 tk) i)) Number"
        by (simp add: expectedAt_def lookahead_drop)
    qed
    then have "parseComponents toFloat S (drop 1 tk)
      = (Inr (map (\<lambda>i. toFloat (lookahead tk (Suc i))) [0 ..< S]), drop (Suc S) tk)"
      by (simp add: parseComponents_ok lookahead_drop)
    moreover have "nextToken (drop (Suc S) tk) = (lookahead tk (Suc S), drop (Suc (Suc S)) tk)"
      by (simp add: nextToken_lookahead lookahead_drop)
    moreover have "\<not> hasType (kind (lookahead tk (Suc S))) c"
      using at last by (simp add: expectedAt_def)
    ultimately show ?thesis
      using op last
      by (simp add: parseFloatVector_def nextToken_lookahead expect_def expectedAt_def)
  qed
qed

lemma parseFloatVector_succeeded:
  "succeeded (parseFloatVector toFloat S o' c tk)
     = (\<forall>j \<le> Suc S. hasType (kind (lookahead tk j)) (expectedAt S o' c j))"
proof (cases "\<forall>j \<le> Suc S. hasType (kind (lookahead tk j)) (expectedAt S o' c j)")
  case True
  then have "hasType (kind (lookahead tk 0)) o'"
    and "hasType (kind (lookahead tk (Suc S))) c"
    by (auto simp: expectedAt_def dest: spec [of _ 0] spec [of _ "Suc S"])
  moreover have "\<forall>i < S. hasType (kind (lookahead tk (Suc i))) Number"
  proof (intro allI impI)
    fix i assume "i < S"
    with True have "hasType (kind (lookahead tk (Suc i))) (expectedAt S o' c (Suc i))"
      by simp
    with \<open>i < S\<close> show "hasType (kind (lookahead tk (Suc i))) Number"
      by (simp add: expectedAt_def)
  qed
  ultimately show ?thesis
    using True by (simp add: parseFloatVector_ok)
next
  case False
  define P where "P j = (j \<le> Suc S \<and> \<not> hasType (kind (lookahead tk j)) (expectedAt S o' c j))" for j
  define k where "k = (LEAST j. P j)"
  from False have "\<exists>j. P j" by (auto simp: P_def)
  then have "P k" unfolding k_def by (rule LeastI_ex)
  have "\<forall>j < k. hasType (kind (lookahead tk j)) (expectedAt S o' c j)"
  proof (intro allI impI)
    fix j assume "j < k"
    then have "\<not> P j" unfolding k_def by (rule not_less_Least)
    with \<open>j < k\<close> \<open>P k\<close> show "hasType (kind (lookahead tk j)) (expectedAt S o' c j)"
      by (simp add: P_def)
  qed
  with \<open>P k\<close> have "parseFloatVector toFloat S o' c tk
    = (Inl (UnexpectedTokenError (expectedAt S o' c k) (lookahead tk k)), drop (Suc k) tk)"
    by (intro parseFloatVector_fail) (simp_all add: P_def)
  with False show ?thesis by simp
qed

lemma lookahead_kind:
  assumes "\<forall>t \<in> set tk. kind t \<in> set kinds"
  shows "kind (lookahead tk j) \<in> set kinds"
proof (cases "j < length tk")
  case True
  then have "lookahead tk j = tk ! j"
    by (simp add: lookahead_def hd_drop_conv_nth [symmetric] )
       (cases "drop j tk"; simp)
  with True assms show ?thesis by simp
next
  case False
  then have "lookahead tk j = eofToken"
    by (simp add: lookahead_def)
  then show ?thesis
    by (simp add: eofToken_def kinds_def)
qed

lemma hasType_Number:
  assumes "k \<in> set kinds"
  shows "hasType k Number = (k = Integer \<or> k = Decimal)"
proof -
  have "hasType k (unionOf [Integer, Decimal]) = (\<exists>k' \<in> set [Integer, Decimal]. hasType k k')"
    by (rule hasType_unionOf)
  moreover have "hasType k Integer = (k = Integer)" "hasType k Decimal = (k = Decimal)"
    using assms by (simp_all add: hasType_kinds kinds_def)
  ultimately show ?thesis by (simp add: Number_def)
qed

text \<open>
  C3. On a stream whose tokens each have one of the twelve kinds, and for delimiter kinds
  \<open>o\<close> and \<open>c\<close>, \<open>parseFloatVector\<close> with arity \<open>S\<close> succeeds exactly when the upcoming
  \<open>S + 2\<close> tokens are one of kind \<open>o\<close>, then \<open>S\<close> tokens of kind \<open>Integer\<close> or
  \<open>Decimal\<close>, then one of kind \<open>c\<close>. It then leaves the tokenizer exactly \<open>S + 2\<close> tokens
  further and returns the vector of \<open>S\<close> components whose \<open>i\<close>-th component is the numeric
  value of the \<open>i\<close>-th number token.
\<close>

theorem parseFloatVector_succeeds_iff:
  assumes wf: "\<forall>t \<in> set tk. kind t \<in> set kinds"
    and o: "o' \<in> set kinds" and c: "c \<in> set kinds"
  shows "(succeeded (parseFloatVector toFloat S o' c tk) \<longleftrightarrow> vectorAhead S o' c tk)
    \<and> (vectorAhead S o' c tk \<longrightarrow>
         parseFloatVector toFloat S o' c tk
           = (Inr (map (\<lambda>i. toFloat (lookahead tk i)) [1 ..< Suc S]), drop (S + 2) tk)
         \<and> length (map (\<lambda>i. toFloat (lookahead tk i)) [1 ..< Suc S]) = S)"
proof -
  have kinds: "kind (lookahead tk j) \<in> set kinds" for j
    using wf by (rule lookahead_kind)
  have exp: "hasType (kind (lookahead tk j)) (expectedAt S o' c j)
      = (if j = 0 then kind (lookahead tk j) = o'
         else if j \<le> S then kind (lookahead tk j) = Integer \<or> kind (lookahead tk j) = Decimal
         else kind (lookahead tk j) = c)" for j
    using kinds [of j] o c by (auto simp: expectedAt_def hasType_kinds hasType_Number)
  have iff: "(\<forall>j \<le> Suc S. hasType (kind (lookahead tk j)) (expectedAt S o' c j))
      = vectorAhead S o' c tk"
    unfolding exp vectorAhead_def
    by (auto simp: le_Suc_eq)
  have first: "succeeded (parseFloatVector toFloat S o' c tk) \<longleftrightarrow> vectorAhead S o' c tk"
    by (simp only: parseFloatVector_succeeded iff)
  have second: "parseFloatVector toFloat S o' c tk
      = (Inr (map (\<lambda>i. toFloat (lookahead tk i)) [1 ..< Suc S]), drop (S + 2) tk)"
    if ahead: "vectorAhead S o' c tk"
  proof -
    from ahead have all: "\<forall>j \<le> Suc S. hasType (kind (lookahead tk j)) (expectedAt S o' c j)"
      by (simp only: iff)
    have "hasType (kind (lookahead tk 0)) o'"
      using all by (auto simp: expectedAt_def dest: spec [of _ 0])
    moreover have "hasType (kind (lookahead tk (Suc S))) c"
      using all by (auto simp: expectedAt_def dest: spec [of _ "Suc S"])
    moreover have "\<forall>i < S. hasType (kind (lookahead tk (Suc i))) Number"
    proof (intro allI impI)
      fix i assume "i < S"
      with all have "hasType (kind (lookahead tk (Suc i))) (expectedAt S o' c (Suc i))"
        by simp
      with \<open>i < S\<close> show "hasType (kind (lookahead tk (Suc i))) Number"
        by (simp add: expectedAt_def)
    qed
    moreover have "map (\<lambda>i. toFloat (lookahead tk (Suc i))) [0 ..< S]
        = map (\<lambda>i. toFloat (lookahead tk i)) [1 ..< Suc S]"
      by (simp only: map_Suc_upt [symmetric] map_map o_def One_nat_def)
    ultimately show ?thesis
      by (simp only: parseFloatVector_ok)
  qed
  show ?thesis
    using first second by simp
qed

theorem parseFloatVector_succeeds_iff_witness:
  "succeeded (parseFloatVector content 3 OParenthesis CParenthesis goodVector)
   \<and> parseFloatVector content 3 OParenthesis CParenthesis goodVector
       = (Inr [''0'', ''1.5'', ''2''], [tok String ''tex'' 13])"
proof -
  have wf: "\<forall>t \<in> set goodVector. kind t \<in> set kinds"
    by (simp add: goodVector_def tok_def kinds_def)
  have o: "OParenthesis \<in> set kinds" and c: "CParenthesis \<in> set kinds"
    by (simp_all add: kinds_def)
  have ahead: "vectorAhead 3 OParenthesis CParenthesis goodVector"
    by (simp add: vectorAhead_def lookahead_def goodVector_def tok_def numeral_3_eq_3
        atLeastAtMostSuc_conv)
  have vec: "map (\<lambda>i. content (lookahead goodVector i)) [1 ..< Suc 3] = [''0'', ''1.5'', ''2'']"
    by (simp add: lookahead_def goodVector_def tok_def numeral_3_eq_3 upt_rec)
  from parseFloatVector_succeeds_iff [OF wf o c, of content 3] ahead vec
  show ?thesis
    by (simp add: goodVector_def)
qed

text \<open>
  C9. \<open>parseFloatVector\<close> is not atomic on failure. When the first \<open>k\<close> tokens it reads
  have the kinds it expects and the \<open>k\<close>-th (counted from 0, \<open>k \<le> S + 1\<close>) has not, the
  call raises the exception for that token, and the tokenizer it leaves behind has
  advanced past the \<open>k + 1\<close> tokens read: nothing is pushed back.
\<close>

theorem parseFloatVector_not_atomic:
  assumes "k \<le> S + 1"
    and "\<forall>j < k. hasType (kind (lookahead tk j)) (expectedAt S o' c j)"
    and "\<not> hasType (kind (lookahead tk k)) (expectedAt S o' c k)"
  shows "parseFloatVector toFloat S o' c tk
       = (Inl (UnexpectedTokenError (expectedAt S o' c k) (lookahead tk k)), drop (k + 1) tk)"
  using assms parseFloatVector_fail [of k S tk o' c toFloat] by simp

theorem parseFloatVector_not_atomic_witness:
  "parseFloatVector content 3 OParenthesis CParenthesis shortVector
     = (Inl (UnexpectedTokenError Number (tok CParenthesis '')'' 5)),
        [tok Integer ''2'' 7, tok CParenthesis '')'' 9])"
proof -
  have before: "\<forall>j < 2. hasType (kind (lookahead shortVector j))
      (expectedAt 3 OParenthesis CParenthesis j)"
    by (simp add: all_less_two lookahead_def shortVector_def tok_def expectedAt_def
        hasType_examples)
  have at: "\<not> hasType (kind (lookahead shortVector 2)) (expectedAt 3 OParenthesis CParenthesis 2)"
    by (simp add: lookahead_def shortVector_def tok_def expectedAt_def hasType_examples)
  have "parseFloatVector content 3 OParenthesis CParenthesis shortVector
      = (Inl (UnexpectedTokenError (expectedAt 3 OParenthesis CParenthesis 2)
               (lookahead shortVector 2)), drop (2 + 1) shortVector)"
    using before at by (intro parseFloatVector_not_atomic) simp_all
  then have "parseFloatVector content 3 OParenthesis CParenthesis shortVector
      = (Inl (UnexpectedTokenError Number (tok CParenthesis '')'' 5)),
          [tok Integer ''2'' 7, tok CParenthesis '')'' 9])"
    by (simp add: expectedAt_def lookahead_def shortVector_def)
  then show ?thesis .
qed

section \<open>The mask test on the kinds of the example inputs\<close>

lemma hasType_table:
  "hasType Integer Integer" "\<not> hasType Integer Decimal" "\<not> hasType Integer String"
  "\<not> hasType Integer OParenthesis" "\<not> hasType Integer CParenthesis"
  "\<not> hasType Integer OBrace" "\<not> hasType Integer CBrace"
  "\<not> hasType Integer OBracket" "\<not> hasType Integer CBracket"
  "\<not> hasType Integer Comment" "\<not> hasType Integer Eof" "\<not> hasType Integer Eol"
  "hasType Integer Number" "\<not> hasType Decimal Integer" "hasType Decimal Decimal"
  "\<not> hasType Decimal String" "\<not> hasType Decimal OParenthesis"
  "\<not> hasType Decimal CParenthesis" "\<not> hasType Decimal OBrace"
  "\<not> hasType Decimal CBrace" "\<not> hasType Decimal OBracket"
  "\<not> hasType Decimal CBracket" "\<not> hasType Decimal Comment"
  "\<not> hasType Decimal Eof" "\<not> hasType Decimal Eol" "hasType Decimal Number"
  "\<not> hasType String Integer" "\<not> hasType String Decimal" "hasType String String"
  "\<not> hasType String OParenthesis" "\<not> hasType String CParenthesis"
  "\<not> hasType String OBrace" "\<not> hasType String CBrace"
  "\<not> hasType String OBracket" "\<not> hasType String CBracket"
  "\<not> hasType String Comment" "\<not> hasType String Eof" "\<not> hasType String Eol"
  "\<not> hasType String Number" "\<not> hasType OParenthesis Integer"
  "\<not> hasType OParenthesis Decimal" "\<not> hasType OParenthesis String"
  "hasType OParenthesis OParenthesis" "\<not> hasType OParenthesis CParenthesis"
  "\<not> hasType OParenthesis OBrace" "\<not> hasType OParenthesis CBrace"
  "\<not> hasType OParenthesis OBracket" "\<not> hasType OParenthesis CBracket"
  "\<not> hasType OParenthesis Comment" "\<not> hasType OParenthesis Eof"
  "\<not> hasType OParenthesis Eol" "\<not> hasType OParenthesis Number"
  "\<not> hasType CParenthesis Integer" "\<not> hasType CParenthesis Decimal"
  "\<not> hasType CParenthesis String" "\<not> hasType CParenthesis OParenthesis"
  "hasType CParenthesis CParenthesis" "\<not> hasType CParenthesis OBrace"
  "\<not> hasType CParenthesis CBrace" "\<not> hasType CParenthesis OBracket"
  "\<not> hasType CParenthesis CBracket" "\<not> hasType CParenthesis Comment"
  "\<not> hasType CParenthesis Eof" "\<not> hasType CParenthesis Eol"
  "\<not> hasType CParenthesis Number" "\<not> hasType OBrace Integer"
  "\<not> hasType OBrace Decimal" "\<not> hasType OBrace String"
  "\<not> hasType OBrace OParenthesis" "\<not> hasType OBrace CParenthesis"
  "hasType OBrace OBrace" "\<not> hasType OBrace CBrace" "\<not> hasType OBrace OBracket"
  "\<not> hasType OBrace CBracket" "\<not> hasType OBrace Comment" "\<not> hasType OBrace Eof"
  "\<not> hasType OBrace Eol" "\<not> hasType OBrace Number" "\<not> hasType CBrace Integer"
  "\<not> hasType CBrace Decimal" "\<not> hasType CBrace String"
  "\<not> hasType CBrace OParenthesis" "\<not> hasType CBrace CParenthesis"
  "\<not> hasType CBrace OBrace" "hasType CBrace CBrace" "\<not> hasType CBrace OBracket"
  "\<not> hasType CBrace CBracket" "\<not> hasType CBrace Comment" "\<not> hasType CBrace Eof"
  "\<not> hasType CBrace Eol" "\<not> hasType CBrace Number" "\<not> hasType OBracket Integer"
  "\<not> hasType OBracket Decimal" "\<not> hasType OBracket String"
  "\<not> hasType OBracket OParenthesis" "\<not> hasType OBracket CParenthesis"
  "\<not> hasType OBracket OBrace" "\<not> hasType OBracket CBrace"
  "hasType OBracket OBracket" "\<not> hasType OBracket CBracket"
  "\<not> hasType OBracket Comment" "\<not> hasType OBracket Eof"
  "\<not> hasType OBracket Eol" "\<not> hasType OBracket Number"
  "\<not> hasType CBracket Integer" "\<not> hasType CBracket Decimal"
  "\<not> hasType CBracket String" "\<not> hasType CBracket OParenthesis"
  "\<not> hasType CBracket CParenthesis" "\<not> hasType CBracket OBrace"
  "\<not> hasType CBracket CBrace" "\<not> hasType CBracket OBracket"
  "hasType CBracket CBracket" "\<not> hasType CBracket Comment" "\<not> hasType CBracket Eof"
  "\<not> hasType CBracket Eol" "\<not> hasType CBracket Number"
  "\<not> hasType Comment Integer" "\<not> hasType Comment Decimal"
  "\<not> hasType Comment String" "\<not> hasType Comment OParenthesis"
  "\<not> hasType Comment CParenthesis" "\<not> hasType Comment OBrace"
  "\<not> hasType Comment CBrace" "\<not> hasType Comment OBracket"
  "\<not> hasType Comment CBracket" "hasType Comment Comment" "\<not> hasType Comment Eof"
  "\<not> hasType Comment Eol" "\<not> hasType Comment Number" "\<not> hasType Eof Integer"
  "\<not> hasType Eof Decimal" "\<not> hasType Eof String" "\<not> hasType Eof OParenthesis"
  "\<not> hasType Eof CParenthesis" "\<not> hasType Eof OBrace" "\<not> hasType Eof CBrace"
  "\<not> hasType Eof OBracket" "\<not> hasType Eof CBracket" "\<not> hasType Eof Comment"
  "hasType Eof Eof" "\<not> hasType Eof Eol" "\<not> hasType Eof Number"
  "\<not> hasType Eol Integer" "\<not> hasType Eol Decimal" "\<not> hasType Eol String"
  "\<not> hasType Eol OParenthesis" "\<not> hasType Eol CParenthesis"
  "\<not> hasType Eol OBrace" "\<not> hasType Eol CBrace" "\<not> hasType Eol OBracket"
  "\<not> hasType Eol CBracket" "\<not> hasType Eol Comment" "\<not> hasType Eol Eof"
  "hasType Eol Eol" "\<not> hasType Eol Number"
  by (simp_all add: hasType_def Number_def kind_defs)

section \<open>Property keys stay unique\<close>

lemma overwrite_keys: "map fst (overwrite k v ps) = map fst ps"
  by (induction ps) auto

lemma parseEntityProperty_invariant:
  assumes "propertiesInvariant acc"
    and "parseEntityProperty policy acc tk = (Inr acc', tk')"
  shows "propertiesInvariant acc'"
proof -
  obtain props keys where acc: "acc = (props, keys)"
    by (cases acc)
  from assms(1) acc have d: "distinct (map fst props)" and k: "set (map fst props) = keys"
    by (simp_all add: propertiesInvariant_def)
  obtain keyToken tk1 where n1: "nextToken tk = (keyToken, tk1)"
    by (cases "nextToken tk")
  obtain valueToken tk2 where n2: "nextToken tk1 = (valueToken, tk2)"
    by (cases "nextToken tk1")
  from assms(2) n1 n2 have ok: "expect String keyToken = Inr keyToken"
    "expect String valueToken = Inr valueToken"
    by (auto simp: parseEntityProperty_def expect_def split: if_splits)
  show ?thesis
  proof (cases "content keyToken \<in> keys")
    case True
    with assms(2) n1 n2 ok acc
    have "acc' = acc \<or> acc' = (overwrite (content keyToken) (content valueToken) props, keys)"
      by (auto simp: parseEntityProperty_def split: DuplicateKeyPolicy.splits)
    with d k acc show ?thesis
      by (auto simp: propertiesInvariant_def overwrite_keys simp del: set_map)
  next
    case False
    with assms(2) n1 n2 ok acc
    have "acc' = (props @ [(content keyToken, content valueToken)], insert (content keyToken) keys)"
      by (auto simp: parseEntityProperty_def)
    with d k False show ?thesis
      by (auto simp: propertiesInvariant_def)
  qed
qed

lemma parseBlock_delivers:
  "body (tokenizer st) = Some (Inr b, tk) \<Longrightarrow>
   parseBlock body st = Some (st\<lparr>tokenizer := tk, builder := builder st @ [BlockComplete b]\<rparr>)"
  by (simp add: parseBlock_def)

lemma parseBlock_recovers:
  "body (tokenizer st) = Some (Inl e, tk) \<Longrightarrow>
   parseBlock body st
     = Some (st\<lparr>tokenizer := resynchronize (tokenizer st),
                status := status st @ [StatusError e]\<rparr>)"
  by (simp add: parseBlock_def)

lemma parseBlock_diverges:
  "body (tokenizer st) = None \<Longrightarrow> parseBlock body st = None"
  by (simp add: parseBlock_def)

lemma parseBlock_uniqueKeys:
  assumes u: "\<forall>d \<in> set (builder st). uniqueKeys d" and p: "parseBlock body st = Some st'"
  shows "\<forall>d \<in> set (builder st'). uniqueKeys d"
proof (cases "body (tokenizer st)")
  case None
  with p show ?thesis by (simp add: parseBlock_diverges)
next
  case (Some res)
  obtain r tk where res: "res = (r, tk)" by (cases res)
  show ?thesis
  proof (cases r)
    case (Inl e)
    with Some res have "body (tokenizer st) = Some (Inl e, tk)" by simp
    from parseBlock_recovers [of body st e tk, OF this] p u show ?thesis by auto
  next
    case (Inr b)
    with Some res have "body (tokenizer st) = Some (Inr b, tk)" by simp
    from parseBlock_delivers [of body st b tk, OF this] p u show ?thesis by auto
  qed
qed

lemma parseEntityItems_property:
  "hasType (kind (peekToken (tokenizer st))) String \<Longrightarrow>
   parseEntityItems (Suc fuel) policy body acc startLine entityStart st =
     (case parseEntityProperty policy acc (tokenizer st) of
        (Inr acc', tk) \<Rightarrow>
          parseEntityItems fuel policy body acc' startLine entityStart (st\<lparr>tokenizer := tk\<rparr>)
      | (Inl e, tk) \<Rightarrow>
          Some (st\<lparr>tokenizer := resynchronize entityStart,
                   status := status st @ [StatusError e]\<rparr>))"
  by (simp add: Let_def)

lemma parseEntityItems_block:
  "\<not> hasType (kind (peekToken (tokenizer st))) String \<Longrightarrow>
   hasType (kind (peekToken (tokenizer st))) OBrace \<Longrightarrow>
   parseEntityItems (Suc fuel) policy body acc startLine entityStart st =
     (case parseBlock body st of
        None \<Rightarrow> None
      | Some st' \<Rightarrow> parseEntityItems fuel policy body acc startLine entityStart st')"
  by (simp add: Let_def)

lemma parseEntityItems_close:
  "\<not> hasType (kind (peekToken (tokenizer st))) String \<Longrightarrow>
   \<not> hasType (kind (peekToken (tokenizer st))) OBrace \<Longrightarrow>
   hasType (kind (peekToken (tokenizer st))) CBrace \<Longrightarrow>
   parseEntityItems (Suc fuel) policy body acc startLine entityStart st =
     Some (st\<lparr>tokenizer := snd (nextToken (tokenizer st)),
              builder := builder st @ [EntityComplete (fst acc) startLine]\<rparr>)"
  by (simp add: Let_def)

lemma parseEntityItems_other:
  "\<not> hasType (kind (peekToken (tokenizer st))) String \<Longrightarrow>
   \<not> hasType (kind (peekToken (tokenizer st))) OBrace \<Longrightarrow>
   \<not> hasType (kind (peekToken (tokenizer st))) CBrace \<Longrightarrow>
   parseEntityItems (Suc fuel) policy body acc startLine entityStart st =
     Some (st\<lparr>tokenizer := resynchronize entityStart,
              status := status st @
                [StatusError (UnexpectedTokenError (unionOf [String, OBrace, CBrace])
                   (peekToken (tokenizer st)))]\<rparr>)"
  by (simp add: Let_def)

declare parseEntityItems.simps(2) [simp del]

lemma parseEntityItems_uniqueKeys:
  assumes "propertiesInvariant acc" and "\<forall>d \<in> set (builder st). uniqueKeys d"
    and "parseEntityItems fuel policy body acc startLine entityStart st = Some st'"
  shows "\<forall>d \<in> set (builder st'). uniqueKeys d"
  using assms
proof (induction fuel arbitrary: acc st)
  case 0
  then show ?case by simp
next
  case (Suc fuel)
  let ?t = "peekToken (tokenizer st)"
  consider (isProperty) "hasType (kind ?t) String"
    | (isBlock) "\<not> hasType (kind ?t) String" "hasType (kind ?t) OBrace"
    | (isClose) "\<not> hasType (kind ?t) String" "\<not> hasType (kind ?t) OBrace" "hasType (kind ?t) CBrace"
    | (isOther) "\<not> hasType (kind ?t) String" "\<not> hasType (kind ?t) OBrace" "\<not> hasType (kind ?t) CBrace"
    by blast
  then show ?case
  proof cases
    case isProperty
    note step = parseEntityItems_property [OF isProperty, of fuel policy body acc startLine entityStart]
    obtain r tk where r: "parseEntityProperty policy acc (tokenizer st) = (r, tk)"
      by (cases "parseEntityProperty policy acc (tokenizer st)")
    show ?thesis
    proof (cases r)
      case (Inl e)
      with step r Suc.prems(3)
      have "st' = st\<lparr>tokenizer := resynchronize entityStart,
          status := status st @ [StatusError e]\<rparr>"
        by simp
      with Suc.prems(2) show ?thesis by simp
    next
      case (Inr acc')
      with r Suc.prems(1) have "propertiesInvariant acc'"
        by (auto intro: parseEntityProperty_invariant)
      moreover have "\<forall>d \<in> set (builder (st\<lparr>tokenizer := tk\<rparr>)). uniqueKeys d"
        using Suc.prems(2) by simp
      moreover have "parseEntityItems fuel policy body acc' startLine entityStart (st\<lparr>tokenizer := tk\<rparr>) = Some st'"
        using step r Inr Suc.prems(3) by simp
      ultimately show ?thesis by (rule Suc.IH)
    qed
  next
    case isBlock
    note step = parseEntityItems_block [OF isBlock, of fuel policy body acc startLine entityStart]
    show ?thesis
    proof (cases "parseBlock body st")
      case None
      with step Suc.prems(3) show ?thesis by simp
    next
      case (Some st1)
      with step Suc.prems(3)
      have rest: "parseEntityItems fuel policy body acc startLine entityStart st1 = Some st'"
        by simp
      from Suc.prems(2) Some have "\<forall>d \<in> set (builder st1). uniqueKeys d"
        by (rule parseBlock_uniqueKeys)
      with Suc.prems(1) show ?thesis using rest by (rule Suc.IH)
    qed
  next
    case isClose
    note step = parseEntityItems_close [OF isClose, of fuel policy body acc startLine entityStart]
    with Suc.prems(3)
    have "st' = st\<lparr>tokenizer := snd (nextToken (tokenizer st)),
        builder := builder st @ [EntityComplete (fst acc) startLine]\<rparr>"
      by simp
    with Suc.prems(1,2) show ?thesis
      by (simp add: propertiesInvariant_def)
  next
    case isOther
    note step = parseEntityItems_other [OF isOther, of fuel policy body acc startLine entityStart]
    with Suc.prems(3)
    have "st' = st\<lparr>tokenizer := resynchronize entityStart,
        status := status st @
          [StatusError (UnexpectedTokenError (unionOf [String, OBrace, CBrace])
             (peekToken (tokenizer st)))]\<rparr>"
      by simp
    with Suc.prems(2) show ?thesis by simp
  qed
qed

text \<open>
  C6. The key set and the property vector start duplicate-free and in agreement, every
  \<open>parseEntityProperty\<close> step that returns keeps them so, whichever of the three
  policies handles a repeated key, and so every entity that \<open>parseEntity\<close> hands to the
  builder has pairwise different keys, compared case-sensitively.
\<close>

theorem entity_keys_unique:
  "propertiesInvariant ([], {})
   \<and> (propertiesInvariant acc \<longrightarrow> parseEntityProperty policy acc tk = (Inr acc', tk')
        \<longrightarrow> propertiesInvariant acc')
   \<and> ((\<forall>d \<in> set (builder st). uniqueKeys d) \<longrightarrow> parseEntity fuel policy body st = Some st'
        \<longrightarrow> (\<forall>d \<in> set (builder st'). uniqueKeys d))"
proof (intro conjI impI)
  show "propertiesInvariant ([], {})"
    by (simp add: propertiesInvariant_def)
next
  assume "propertiesInvariant acc" and "parseEntityProperty policy acc tk = (Inr acc', tk')"
  then show "propertiesInvariant acc'"
    by (rule parseEntityProperty_invariant)
next
  assume b: "\<forall>d \<in> set (builder st). uniqueKeys d"
    and p: "parseEntity fuel policy body st = Some st'"
  obtain token tk where n: "nextToken (tokenizer st) = (token, tk)"
    by (cases "nextToken (tokenizer st)")
  show "\<forall>d \<in> set (builder st'). uniqueKeys d"
  proof (cases "expect OBrace token")
    case (Inl e)
    with n p
    have "st' = st\<lparr>tokenizer := resynchronize (tokenizer st),
        status := status st @ [StatusError e]\<rparr>"
      by (simp add: parseEntity_def)
    with b show ?thesis by simp
  next
    case (Inr t)
    with n p have items: "parseEntityItems fuel policy body ([], {}) (line t) (tokenizer st)
        (st\<lparr>tokenizer := tk\<rparr>) = Some st'"
      by (simp add: parseEntity_def)
    have inv: "propertiesInvariant ([], {})"
      by (simp add: propertiesInvariant_def)
    have "\<forall>d \<in> set (builder (st\<lparr>tokenizer := tk\<rparr>)). uniqueKeys d"
      using b by simp
    with inv show ?thesis
      using items by (rule parseEntityItems_uniqueKeys)
  qed
qed

theorem entity_keys_unique_witness:
  "parseEntity 4 FirstWriteWins noBlocks \<lparr>tokenizer = repeatedKey, status = [], builder = []\<rparr>
     = Some \<lparr>tokenizer = [], status = [],
             builder = [EntityComplete [(''origin'', ''0 0 0''), (''Origin'', ''1'')] 1]\<rparr>
   \<and> uniqueKeys (EntityComplete [(''origin'', ''0 0 0''), (''Origin'', ''1'')] 1
                  :: unit Delivered)"
proof -
  let ?st = "\<lparr>tokenizer = repeatedKey, status = [], builder = []\<rparr> :: unit ParserState"
  let ?st' = "\<lparr>tokenizer = [], status = [],
      builder = [EntityComplete [(''origin'', ''0 0 0''), (''Origin'', ''1'')] 1]\<rparr>
      :: unit ParserState"
  have run: "parseEntity 4 FirstWriteWins noBlocks ?st = Some ?st'"
    by (simp add: parseEntity_def parseEntityItems.simps numeral_eq_Suc repeatedKey_def tok_def
        expect_def peekToken_def parseEntityProperty_def hasType_table)
  have "\<forall>d \<in> set (builder ?st). uniqueKeys d"
    by simp
  with entity_keys_unique [of "([], {})" FirstWriteWins "[]" "([], {})" "[]" ?st 4 noBlocks ?st'] run
  have "\<forall>d \<in> set (builder ?st'). uniqueKeys d"
    by blast
  with run show ?thesis
    by simp
qed

section \<open>A malformed block between two well-formed blocks\<close>











end
